theory Spec2Isabelle
  imports Main "HOL-Library.Sublist" "HOL-Library.Multiset"
begin

section \<open>The preseed generator: generate\_preseed.py\<close>

text \<open>
  The script reads \<^verbatim>\<open>config.json\<close> and \<^verbatim>\<open>template.cfg\<close> beside itself, replaces
  \<^verbatim>\<open>{{key}}\<close> by \<^verbatim>\<open>str(value)\<close> for every item of the configuration, in the
  dictionary's iteration order, and writes the result to \<^verbatim>\<open>preseed.cfg\<close>.
  Python strings are modelled as \<^typ>\<open>string\<close>.
\<close>

subsection \<open>Values of the configuration and their text\<close>

text \<open>
  A value of the dictionary that \<^verbatim>\<open>json.load\<close> returns. \<open>JOther s\<close> stands for a float,
  a list or a nested dictionary; \<open>s\<close> is the text \<^verbatim>\<open>str\<close> gives for it (float formatting
  and the \<^verbatim>\<open>repr\<close> of containers are not reproduced here).
\<close>

datatype json = JString string | JInt int | JBool bool | JNull | JOther string

definition digit_char :: "nat \<Rightarrow> char" where
  "digit_char d = ''0123456789'' ! d"

fun str_nat :: "nat \<Rightarrow> string" where
  "str_nat n = (if n < 10 then [digit_char n] else str_nat (n div 10) @ [digit_char (n mod 10)])"

declare str_nat.simps [simp del]

definition str_int :: "int \<Rightarrow> string" where
  "str_int i = (if i < 0 then CHR ''-'' # str_nat (nat (- i)) else str_nat (nat i))"

text \<open>\<^verbatim>\<open>str(value)\<close>: a string is its own text, a boolean is \<^verbatim>\<open>True\<close> or \<^verbatim>\<open>False\<close>,
  \<^verbatim>\<open>None\<close> is \<^verbatim>\<open>None\<close>, an integer is its decimal numeral.\<close>

fun py_str :: "json \<Rightarrow> string" where
  "py_str (JString s) = s"
| "py_str (JInt i) = str_int i"
| "py_str (JBool b) = (if b then ''True'' else ''False'')"
| "py_str JNull = ''None''"
| "py_str (JOther s) = s"

subsection \<open>\<^verbatim>\<open>str.replace\<close>\<close>

text \<open>
  \<^verbatim>\<open>content.replace(old, new)\<close> scans from the left; at an occurrence of \<open>old\<close> it emits
  \<open>new\<close> and goes on behind the occurrence, so occurrences do not overlap and the text
  it has emitted is not scanned again. For the empty \<open>old\<close> Python puts \<open>new\<close> before every
  character and at the end.
\<close>

function replace_scan :: "string \<Rightarrow> string \<Rightarrow> string \<Rightarrow> string" where
  "replace_scan old new [] = []"
| "replace_scan old new (c # cs) =
     (if old \<noteq> [] \<and> prefix old (c # cs)
      then new @ replace_scan old new (drop (length old) (c # cs))
      else c # replace_scan old new cs)"
  by pat_completeness auto
termination
  by (relation "measure (\<lambda>(old, new, s). length s)") (auto simp: neq_Nil_conv)

definition str_replace :: "string \<Rightarrow> string \<Rightarrow> string \<Rightarrow> string" where
  "str_replace old new s =
     (if old = [] then new @ concat (map (\<lambda>c. c # new) s) else replace_scan old new s)"

subsection \<open>The substitution loop\<close>

text \<open>\<^verbatim>\<open>f"{{{{{key}}}}}"\<close>: two opening braces, the key, two closing braces.\<close>

definition placeholder :: "string \<Rightarrow> string" where
  "placeholder key = ''{{'' @ key @ ''}}''"

text \<open>
  The loop \<^verbatim>\<open>for key, value in config.items(): content = content.replace(...)\<close>. The
  items are the list of pairs in iteration order.
\<close>

fun render :: "(string \<times> json) list \<Rightarrow> string \<Rightarrow> string" where
  "render [] content = content"
| "render ((key, value) # items) content =
     render items (str_replace (placeholder key) (py_str value) content)"

subsection \<open>Paths, the file system and the outcome of a run\<close>

text \<open>
  A \<^verbatim>\<open>pathlib.Path\<close>, as the text of its parent (with the separator that follows it) and
  its last component. \<^verbatim>\<open>Path(__file__).with_name(n)\<close> keeps the parent and replaces the
  last component; \<^verbatim>\<open>__file__\<close> names the script, so its last component is not empty and
  \<^verbatim>\<open>with_name\<close> does not raise.
\<close>

record path =
  parent :: string
  name :: string

definition with_name :: "path \<Rightarrow> string \<Rightarrow> path" where
  "with_name p n = p\<lparr>name := n\<rparr>"

definition path_str :: "path \<Rightarrow> string" where
  "path_str p = parent p @ name p"

definition CONFIG_PATH :: "path \<Rightarrow> path" where
  "CONFIG_PATH file = with_name file ''config.json''"

definition TEMPLATE_PATH :: "path \<Rightarrow> path" where
  "TEMPLATE_PATH file = with_name file ''template.cfg''"

definition OUTPUT_PATH :: "path \<Rightarrow> path" where
  "OUTPUT_PATH file = with_name file ''preseed.cfg''"

text \<open>
  The world of a run. \<open>resolve\<close> gives the file a path leads to, so that two paths that
  are links to one file resolve to the same path; \<open>files\<close> maps a resolved path to what is
  there: a regular file with its bytes, or a directory (for which \<^verbatim>\<open>exists()\<close> is true
  and \<^verbatim>\<open>open()\<close> raises). \<open>fault\<close> is the refusal of the operating system to carry out an
  operation on a path (a \<^verbatim>\<open>PermissionError\<close>, another \<^verbatim>\<open>OSError\<close>), and \<open>written\<close> the
  number of bytes that reach the file when the write is refused. \<open>locale_decode\<close> and
  \<open>locale_encode\<close> are the codec of the locale, which \<^verbatim>\<open>open()\<close> uses in text mode
  (\<open>None\<close> where it raises), and \<open>linesep\<close> is \<^verbatim>\<open>os.linesep\<close>. The world also holds the
  lines printed on standard output.
\<close>

datatype node = File string | Directory

datatype operation = OpenRead | ReadAll | OpenWrite | WriteAll

datatype py_error =
    FileNotFoundError | IsADirectoryError | PermissionError | OSError
  | UnicodeDecodeError | UnicodeEncodeError | JSONDecodeError | AttributeError
  | OtherException string

record world =
  resolve :: "path \<Rightarrow> path"
  files :: "path \<Rightarrow> node option"
  fault :: "path \<Rightarrow> operation \<Rightarrow> py_error option"
  written :: nat
  locale_decode :: "string \<Rightarrow> string option"
  locale_encode :: "string \<Rightarrow> string option"
  linesep :: string
  stdout :: "string list"

text \<open>
  What \<^verbatim>\<open>json.load\<close> returns: a dictionary, as its items in iteration order, or a value of
  another type (a list, a string, a number, \<^verbatim>\<open>None\<close>), which has no \<^verbatim>\<open>items\<close>.
\<close>

datatype document = Dict "(string \<times> json) list" | NotDict

text \<open>
  How the process ends: \<^verbatim>\<open>main\<close> returns, \<^verbatim>\<open>SystemExit\<close> is raised with a message
  (exit status 1, the message on standard error), or another exception is not caught
  (exit status 1, a traceback).
\<close>

datatype outcome = Returned | SystemExit string | Uncaught py_error

fun exit_code :: "outcome \<Rightarrow> nat" where
  "exit_code Returned = 0"
| "exit_code (SystemExit message) = 1"
| "exit_code (Uncaught e) = 1"

text \<open>\<^verbatim>\<open>p.exists()\<close> follows links and is true for a file and for a directory.\<close>

definition path_exists :: "world \<Rightarrow> path \<Rightarrow> bool" where
  "path_exists w p = (files w (resolve w p) \<noteq> None)"

text \<open>
  Reading in text mode with \<^verbatim>\<open>newline=None\<close>: the bytes are decoded, then every carriage
  return with a line feed behind it, and every other carriage return, becomes a line
  feed.
\<close>

abbreviation CR :: char where
  "CR \<equiv> CHR 0x0D"

abbreviation LF :: char where
  "LF \<equiv> CHR 0x0A"

fun universal_newlines :: "string \<Rightarrow> string" where
  "universal_newlines [] = []"
| "universal_newlines [c] = (if c = CR then [LF] else [c])"
| "universal_newlines (c # d # cs) =
     (if c = CR \<and> d = LF then LF # universal_newlines cs
      else if c = CR then LF # universal_newlines (d # cs)
      else c # universal_newlines (d # cs))"

text \<open>
  \<^verbatim>\<open>with p.open() as f: f.read()\<close>, which is also what \<^verbatim>\<open>json.load(f)\<close> does with the
  file before it decodes the text.
\<close>

definition read_text :: "world \<Rightarrow> path \<Rightarrow> py_error + string" where
  "read_text w p =
     (case fault w p OpenRead of
        Some e \<Rightarrow> Inl e
      | None \<Rightarrow>
     (case files w (resolve w p) of
        None \<Rightarrow> Inl FileNotFoundError
      | Some Directory \<Rightarrow> Inl IsADirectoryError
      | Some (File bytes) \<Rightarrow>
     (case fault w p ReadAll of
        Some e \<Rightarrow> Inl e
      | None \<Rightarrow>
     (case locale_decode w bytes of
        None \<Rightarrow> Inl UnicodeDecodeError
      | Some text \<Rightarrow> Inr (universal_newlines text)))))"

text \<open>
  \<^verbatim>\<open>p.write_text(text)\<close> opens the file for writing, which creates it or empties it, then
  writes the text with every line feed replaced by \<^verbatim>\<open>os.linesep\<close>, encoded. When the
  file cannot be opened the world is as it was; when the text cannot be encoded the file
  is left empty; when the write is refused the file holds the bytes that reached it. The
  result is the exception raised, if any, and the world after the call.
\<close>

definition store :: "world \<Rightarrow> path \<Rightarrow> string \<Rightarrow> world" where
  "store w p bytes = w\<lparr>files := (files w)(resolve w p \<mapsto> File bytes)\<rparr>"

definition write_text :: "world \<Rightarrow> path \<Rightarrow> string \<Rightarrow> py_error option \<times> world" where
  "write_text w p text =
     (case fault w p OpenWrite of
        Some e \<Rightarrow> (Some e, w)
      | None \<Rightarrow>
     (case files w (resolve w p) of
        Some Directory \<Rightarrow> (Some IsADirectoryError, w)
      | _ \<Rightarrow>
     (case locale_encode w (str_replace [LF] (linesep w) text) of
        None \<Rightarrow> (Some UnicodeEncodeError, store w p [])
      | Some bytes \<Rightarrow>
     (case fault w p WriteAll of
        Some e \<Rightarrow> (Some e, store w p (take (written w) bytes))
      | None \<Rightarrow> (None, store w p bytes)))))"

text \<open>\<^verbatim>\<open>config.items()\<close>: an \<^verbatim>\<open>AttributeError\<close> unless \<^verbatim>\<open>config\<close> is a dictionary.\<close>

fun dict_items :: "document \<Rightarrow> py_error + (string \<times> json) list" where
  "dict_items (Dict items) = Inr items"
| "dict_items NotDict = Inl AttributeError"

definition print :: "world \<Rightarrow> string \<Rightarrow> world" where
  "print w line = w\<lparr>stdout := stdout w @ [line]\<rparr>"

subsection \<open>\<^verbatim>\<open>main\<close>\<close>

text \<open>
  The statements of \<^verbatim>\<open>main\<close> in their order: the two existence checks, reading and
  decoding the configuration, reading the template, the loop, the write and the
  confirmation line. \<^verbatim>\<open>json.load\<close> is the standard library's decoder; it is the
  parameter \<open>json_load\<close>, from the text of the file to the exception it raises or the
  document, and every statement about \<^verbatim>\<open>main\<close> below holds for every such function.
\<close>

definition main :: "(string \<Rightarrow> py_error + document) \<Rightarrow> path \<Rightarrow> world \<Rightarrow> outcome \<times> world" where
  "main json_load file w =
     (if \<not> path_exists w (CONFIG_PATH file)
      then (SystemExit (''Config file '' @ path_str (CONFIG_PATH file) @ '' not found''), w)
      else if \<not> path_exists w (TEMPLATE_PATH file)
      then (SystemExit (''Template file '' @ path_str (TEMPLATE_PATH file) @ '' not found''), w)
      else case read_text w (CONFIG_PATH file) of
        Inl e \<Rightarrow> (Uncaught e, w)
      | Inr raw \<Rightarrow>
      (case json_load raw of
        Inl e \<Rightarrow> (Uncaught e, w)
      | Inr config \<Rightarrow>
      (case read_text w (TEMPLATE_PATH file) of
        Inl e \<Rightarrow> (Uncaught e, w)
      | Inr content \<Rightarrow>
      (case dict_items config of
        Inl e \<Rightarrow> (Uncaught e, w)
      | Inr items \<Rightarrow>
      (case write_text w (OUTPUT_PATH file) (render items content) of
        (Some e, w') \<Rightarrow> (Uncaught e, w')
      | (None, w') \<Rightarrow> (Returned, print w' (''Generated '' @ path_str (OUTPUT_PATH file))))))))"

subsection \<open>Templates made of text and tokens\<close>

text \<open>
  The script knows no tokens: it replaces substrings. The notions of this subsection are
  those of the specification's data model, used to state what the loop computes on a
  template that is plain text with tokens \<^verbatim>\<open>{{identifier}}\<close> in it. A string is
  brace-free when neither brace occurs in it; a segment is well formed when its text,
  or its identifier, is brace-free.
\<close>

definition brace_free :: "string \<Rightarrow> bool" where
  "brace_free s = (CHR ''{'' \<notin> set s \<and> CHR ''}'' \<notin> set s)"

datatype segment = Text string | Token string

fun seg_text :: "segment \<Rightarrow> string" where
  "seg_text (Text s) = s"
| "seg_text (Token ident) = placeholder ident"

definition flatten :: "segment list \<Rightarrow> string" where
  "flatten segs = concat (map seg_text segs)"

fun well_formed :: "segment \<Rightarrow> bool" where
  "well_formed (Text s) = brace_free s"
| "well_formed (Token ident) = brace_free ident"

text \<open>Replacing the tokens of one key by a text, and the tokens of every key of a map.\<close>

fun fill :: "string \<Rightarrow> string \<Rightarrow> segment \<Rightarrow> segment" where
  "fill key new (Text s) = Text s"
| "fill key new (Token ident) = (if ident = key then Text new else Token ident)"

fun subst :: "(string \<rightharpoonup> string) \<Rightarrow> segment \<Rightarrow> segment" where
  "subst m (Text s) = Text s"
| "subst m (Token ident) = (case m ident of Some v \<Rightarrow> Text v | None \<Rightarrow> Token ident)"

text \<open>The configuration as a map from each key to the text of its value.\<close>

definition texts :: "(string \<times> json) list \<Rightarrow> (string \<rightharpoonup> string)" where
  "texts items = map_of (map (\<lambda>(key, value). (key, py_str value)) items)"

subsection \<open>Example inputs\<close>

text \<open>
  Notation for the inputs on which the statements below are instantiated: the
  specification's example configuration as text and as decoded, a template of text and
  tokens, a place of the script, and a world with the given links and files in which
  the operating system refuses nothing, the codec takes every text and a line ends with
  a line feed.
\<close>

abbreviation example_json :: string where
  \<open>example_json \<equiv> ''{"hostname": "node1", "port": 8080}''\<close>

abbreviation example_items :: "(string \<times> json) list" where
  "example_items \<equiv> [(''hostname'', JString ''node1''), (''port'', JInt 8080)]"

abbreviation example_segments :: "segment list" where
  "example_segments \<equiv>
     [Text ''host='', Token ''hostname'', Text '' port='', Token ''port'',
      Text '' debug='', Token ''debug'']"

abbreviation example_script :: path where
  "example_script \<equiv> \<lparr>parent = ''/srv/'', name = ''generate_preseed.py''\<rparr>"

abbreviation example_world :: "(path \<Rightarrow> path) \<Rightarrow> (path \<Rightarrow> node option) \<Rightarrow> world" where
  "example_world links fs \<equiv>
     \<lparr>resolve = links, files = fs, fault = (\<lambda>p operation. None), written = 0,
      locale_decode = Some, locale_encode = Some, linesep = [LF], stdout = []\<rparr>"

section \<open>Scanning\<close>

lemma placeholder_not_Nil [simp]: "placeholder key \<noteq> []"
  by (simp add: placeholder_def)

lemma hd_placeholder [simp]: "hd (placeholder k) = CHR ''{''"
  by (simp add: placeholder_def)

lemma replace_scan_skip:
  "old \<noteq> [] \<Longrightarrow> hd old \<notin> set pre \<Longrightarrow>
   replace_scan old new (pre @ rest) = pre @ replace_scan old new rest"
proof (induction pre)
  case Nil
  then show ?case by simp
next
  case (Cons c pre)
  from Cons.prems have "\<not> prefix old ((c # pre) @ rest)"
    by (cases old) auto
  with Cons show ?case by simp
qed

lemma replace_scan_hit:
  "old \<noteq> [] \<Longrightarrow> replace_scan old new (old @ rest) = new @ replace_scan old new rest"
  by (cases old) auto

lemma replace_scan_absent:
  "\<not> sublist old s \<Longrightarrow> replace_scan old new s = s"
proof (induction s)
  case Nil
  then show ?case by simp
next
  case (Cons c s)
  then show ?case by (auto simp: sublist_Cons_right)
qed

lemma str_replace_absent: "\<not> sublist old s \<Longrightarrow> str_replace old new s = s"
  by (auto simp: str_replace_def replace_scan_absent)

lemma prefix_closing:
  "CHR ''}'' \<notin> set k \<Longrightarrow> CHR ''}'' \<notin> set j \<Longrightarrow>
   prefix (k @ CHR ''}'' # a) (j @ CHR ''}'' # b) \<Longrightarrow> k = j"
proof (induction k arbitrary: j)
  case Nil
  then show ?case by (cases j) auto
next
  case (Cons c k)
  then show ?case by (cases j) auto
qed

lemma prefix_placeholder:
  "brace_free k \<Longrightarrow> brace_free j \<Longrightarrow> prefix (placeholder k) (placeholder j @ rest) \<Longrightarrow> k = j"
  using prefix_closing [of k j "''}''" "CHR ''}'' # rest"]
  by (simp add: placeholder_def brace_free_def)

lemma not_prefix_inner:
  "brace_free k \<Longrightarrow> brace_free j \<Longrightarrow> \<not> prefix (placeholder k) (CHR ''{'' # j @ ''}}'' @ rest)"
  by (cases j) (auto simp: placeholder_def brace_free_def)

lemma replace_scan_other:
  assumes "brace_free k" "brace_free j" "k \<noteq> j"
  shows "replace_scan (placeholder k) new (placeholder j @ rest)
         = placeholder j @ replace_scan (placeholder k) new rest"
proof -
  let ?P = "placeholder k"
  have n0: "\<not> prefix ?P (placeholder j @ rest)"
    using assms prefix_placeholder by blast
  have tl: "placeholder j @ rest = CHR ''{'' # (CHR ''{'' # j @ ''}}'') @ rest"
    by (simp add: placeholder_def)
  have n1: "\<not> prefix ?P ((CHR ''{'' # j @ ''}}'') @ rest)"
    using assms by (cases j) (auto simp: placeholder_def brace_free_def)
  have sk: "replace_scan ?P new ((j @ ''}}'') @ rest) = (j @ ''}}'') @ replace_scan ?P new rest"
    using assms by (intro replace_scan_skip) (auto simp: placeholder_def brace_free_def)
  show ?thesis
    using n0 n1 sk by (simp add: tl del: append_Cons) (simp add: placeholder_def)
qed

lemma no_overlap:
  assumes "brace_free k" "brace_free j" "k \<noteq> j \<or> a \<noteq> []"
    and "prefix (placeholder k) (a @ placeholder j @ b)"
  shows "prefix (placeholder k) a"
proof (rule ccontr)
  assume not: "\<not> prefix (placeholder k) a"
  with assms(4) obtain us where us: "placeholder k = a @ us" "prefix us (placeholder j @ b)"
    by (auto simp: prefix_append)
  from not us(1) have ne: "us \<noteq> []"
    by auto
  with us(2) have hd: "hd us = CHR ''{''"
    by (cases us) (auto simp: placeholder_def)
  show False
  proof (cases a)
    case Nil
    with us have "prefix (placeholder k) (placeholder j @ b)" by simp
    with assms(1,2) have "k = j" by (rule prefix_placeholder)
    with assms(3) Nil show False by simp
  next
    case (Cons x a1)
    show False
    proof (cases a1)
      case Nil
      with Cons us(1) have "us = CHR ''{'' # k @ ''}}''"
        by (auto simp: placeholder_def)
      with us(2) have "prefix (k @ ''}}'') (CHR ''{'' # j @ ''}}'' @ b)"
        by (simp add: placeholder_def)
      with assms(1) show False
        by (cases k) (auto simp: brace_free_def)
    next
      case (Cons y a2)
      with \<open>a = x # a1\<close> us(1) have "k @ ''}}'' = a2 @ us"
        by (simp add: placeholder_def)
      then have "set us \<subseteq> set (k @ ''}}'')"
        by simp
      moreover from ne have "hd us \<in> set us"
        by simp
      ultimately have "CHR ''{'' \<in> set (k @ ''}}'')"
        using hd by auto
      with assms(1) show False
        by (simp add: brace_free_def)
    qed
  qed
qed

lemma replace_scan_around:
  assumes "brace_free k" "brace_free j" "k \<noteq> j"
  shows "replace_scan (placeholder k) new (a @ placeholder j @ b)
         = replace_scan (placeholder k) new a @ placeholder j @ replace_scan (placeholder k) new b"
proof (induction a rule: length_induct)
  case (1 a)
  let ?P = "placeholder k"
  show ?case
  proof (cases a)
    case Nil
    with assms show ?thesis by (simp add: replace_scan_other)
  next
    case (Cons c cs)
    show ?thesis
    proof (cases "prefix ?P (a @ placeholder j @ b)")
      case True
      have "prefix ?P a"
        by (rule no_overlap [OF assms(1,2) _ True]) (use assms(3) in simp)
      then obtain a1 where a: "a = ?P @ a1"
        by (auto simp: prefix_def)
      have "length a1 < length a"
        using a by (simp add: placeholder_def)
      with 1 have IH: "replace_scan ?P new (a1 @ placeholder j @ b)
                       = replace_scan ?P new a1 @ placeholder j @ replace_scan ?P new b"
        by blast
      have "replace_scan ?P new (?P @ (a1 @ placeholder j @ b))
            = new @ replace_scan ?P new (a1 @ placeholder j @ b)"
        by (rule replace_scan_hit) simp
      moreover have "replace_scan ?P new (?P @ a1) = new @ replace_scan ?P new a1"
        by (rule replace_scan_hit) simp
      ultimately show ?thesis
        using IH a by simp
    next
      case False
      then have "\<not> prefix ?P (c # cs)"
        using Cons prefix_prefix [of ?P a "placeholder j @ b"] by auto
      moreover have "replace_scan ?P new (cs @ placeholder j @ b)
                     = replace_scan ?P new cs @ placeholder j @ replace_scan ?P new b"
        using 1 Cons by simp
      ultimately show ?thesis
        using False Cons by simp
    qed
  qed
qed



lemma sublist_skip:
  "p \<noteq> [] \<Longrightarrow> hd p \<notin> set pre \<Longrightarrow> sublist p (pre @ rest) \<Longrightarrow> sublist p rest"
proof (induction pre)
  case Nil
  then show ?case by simp
next
  case (Cons c pre)
  from Cons.prems have "\<not> prefix p ((c # pre) @ rest)"
    by (cases p) auto
  with Cons show ?case by (simp add: sublist_Cons_right)
qed

lemma sublist_placeholder_Token:
  assumes "brace_free k" "brace_free j" "sublist (placeholder k) (placeholder j @ rest)"
  shows "k = j \<or> sublist (placeholder k) rest"
proof -
  have split: "placeholder j @ rest = CHR ''{'' # CHR ''{'' # (j @ ''}}'') @ rest"
    by (simp add: placeholder_def)
  from assms(3) consider
      (here) "prefix (placeholder k) (placeholder j @ rest)"
    | (inner) "prefix (placeholder k) (CHR ''{'' # j @ ''}}'' @ rest)"
    | (later) "sublist (placeholder k) ((j @ ''}}'') @ rest)"
    unfolding split by (auto simp: sublist_Cons_right)
  then show ?thesis
  proof cases
    case here
    with assms(1,2) have "k = j" by (rule prefix_placeholder)
    then show ?thesis ..
  next
    case inner
    moreover have "\<not> prefix (placeholder k) (CHR ''{'' # j @ ''}}'' @ rest)"
      using assms(1,2) by (rule not_prefix_inner)
    ultimately show ?thesis by simp
  next
    case later
    have "placeholder k \<noteq> []"
      by simp
    moreover have "hd (placeholder k) \<notin> set (j @ ''}}'')"
      using assms(2) by (simp add: brace_free_def)
    ultimately have "sublist (placeholder k) rest"
      using later by (rule sublist_skip)
    then show ?thesis ..
  qed
qed

section \<open>The loop on a template of text and tokens\<close>

lemma flatten_Nil [simp]: "flatten [] = []"
  by (simp add: flatten_def)

lemma flatten_Cons [simp]: "flatten (seg # segs) = seg_text seg @ flatten segs"
  by (simp add: flatten_def)

lemma replace_tokens:
  assumes "brace_free k" "\<forall>seg \<in> set segs. well_formed seg"
  shows "str_replace (placeholder k) new (flatten segs) = flatten (map (fill k new) segs)"
proof -
  have "replace_scan (placeholder k) new (flatten segs) = flatten (map (fill k new) segs)"
    using assms(2)
  proof (induction segs)
    case Nil
    then show ?case by simp
  next
    case (Cons seg segs)
    have IH: "replace_scan (placeholder k) new (flatten segs)
                   = flatten (map (fill k new) segs)"
      by (rule Cons.IH) (use Cons.prems in simp)
    show ?case
    proof (cases seg)
      case (Text s)
      with Cons.prems have "hd (placeholder k) \<notin> set s"
        by (simp add: brace_free_def)
      then show ?thesis
        using Text IH by (simp add: replace_scan_skip)
    next
      case (Token j)
      show ?thesis
      proof (cases "j = k")
        case True
        then show ?thesis
          using Token IH by (simp add: replace_scan_hit)
      next
        case False
        with Cons.prems Token assms(1) have
          "replace_scan (placeholder k) new (placeholder j @ flatten segs)
           = placeholder j @ replace_scan (placeholder k) new (flatten segs)"
          by (intro replace_scan_other) auto
        then show ?thesis
          using Token False IH by simp
      qed
    qed
  qed
  then show ?thesis by (simp add: str_replace_def)
qed

lemma well_formed_fill:
  "well_formed seg \<Longrightarrow> brace_free new \<Longrightarrow> well_formed (fill k new seg)"
  by (cases seg) auto

lemma subst_fill:
  "subst m (fill k new seg) = subst (m(k \<mapsto> new)) seg"
  by (cases seg) auto

lemma texts_Cons: "texts ((k, v) # items) = (texts items)(k \<mapsto> py_str v)"
  by (simp add: texts_def)

lemma render_tokens:
  assumes "\<forall>(k, v) \<in> set items. brace_free k \<and> brace_free (py_str v)"
    and "\<forall>seg \<in> set segs. well_formed seg"
  shows "render items (flatten segs) = flatten (map (subst (texts items)) segs)"
  using assms
proof (induction items arbitrary: segs)
  case Nil
  have "map (subst Map.empty) segs = segs"
    by (rule map_idI) (case_tac x, auto)
  then show ?case by (simp add: texts_def)
next
  case (Cons item items)
  obtain k v where item: "item = (k, v)" by (cases item)
  from Cons.prems item have k: "brace_free k" and v: "brace_free (py_str v)"
    by auto
  have wf: "\<forall>seg \<in> set (map (fill k (py_str v)) segs). well_formed seg"
    using Cons.prems(2) v by (auto intro!: well_formed_fill)
  have "render (item # items) (flatten segs)
        = render items (flatten (map (fill k (py_str v)) segs))"
    using item k Cons.prems(2) by (simp add: replace_tokens)
  also have "\<dots> = flatten (map (subst (texts items)) (map (fill k (py_str v)) segs))"
    using Cons.prems(1) wf by (intro Cons.IH) auto
  also have "\<dots> = flatten (map (subst (texts (item # items))) segs)"
    by (simp add: item texts_Cons subst_fill comp_def)
  finally show ?case .
qed


lemma render_absent:
  "\<forall>(k, v) \<in> set items. \<not> sublist (placeholder k) t \<Longrightarrow> render items t = t"
  by (induction items) (auto simp: str_replace_absent)

lemma render_split_at_placeholder:
  assumes "brace_free ident"
    and "\<forall>(key, value) \<in> set items. brace_free key \<and> key \<noteq> ident"
  shows "render items (a @ placeholder ident @ b)
         = render items a @ placeholder ident @ render items b"
  using assms(2)
proof (induction items arbitrary: a b)
  case Nil
  show ?case by simp
next
  case (Cons item items)
  obtain key val where item: "item = (key, val)" by (cases item)
  with Cons.prems have key: "brace_free key" "key \<noteq> ident"
    by auto
  have step: "str_replace (placeholder key) (py_str val) (a @ placeholder ident @ b)
        = str_replace (placeholder key) (py_str val) a @ placeholder ident
          @ str_replace (placeholder key) (py_str val) b"
    using key(1) assms(1) key(2) by (simp add: str_replace_def replace_scan_around)
  have "\<forall>(key, value) \<in> set items. brace_free key \<and> key \<noteq> ident"
    using Cons.prems by simp
  then show ?case
    using item step by (simp add: Cons.IH)
qed

lemma sublist_tokens:
  assumes "brace_free k"
  shows "\<forall>seg \<in> set segs. well_formed seg \<Longrightarrow> sublist (placeholder k) (flatten segs)
         \<Longrightarrow> Token k \<in> set segs"
proof (induction segs)
  case Nil
  then show ?case by simp
next
  case (Cons seg segs)
  show ?case
  proof (cases seg)
    case (Text s)
    with Cons.prems have "hd (placeholder k) \<notin> set s"
      by (simp add: brace_free_def)
    with Cons.prems(2) Text have "sublist (placeholder k) (flatten segs)"
      using sublist_skip [of "placeholder k" s "flatten segs"] by simp
    with Cons show ?thesis by simp
  next
    case (Token j)
    with Cons.prems have "k = j \<or> sublist (placeholder k) (flatten segs)"
      using sublist_placeholder_Token [OF assms, of j "flatten segs"] by simp
    with Cons Token show ?thesis by auto
  qed
qed

lemma dom_texts: "dom (texts items) = fst ` set items"
  by (simp add: texts_def dom_map_of_conv_image_fst image_image case_prod_beta)

lemma texts_brace_free:
  "\<forall>(k, v) \<in> set items. brace_free k \<and> brace_free (py_str v) \<Longrightarrow> texts items k = Some t
   \<Longrightarrow> brace_free t"
  by (induction items) (auto simp: texts_def split: if_splits)

lemma well_formed_subst:
  "well_formed seg \<Longrightarrow> (\<And>k t. m k = Some t \<Longrightarrow> brace_free t) \<Longrightarrow> well_formed (subst m seg)"
  by (cases seg) (auto split: option.splits)

lemma well_formed_texts:
  assumes "\<forall>(k, v) \<in> set items. brace_free k \<and> brace_free (py_str v)"
    and "\<forall>seg \<in> set segs. well_formed seg"
  shows "\<forall>seg \<in> set (map (subst (texts items)) segs). well_formed seg"
proof -
  have "well_formed (subst (texts items) seg)" if "seg \<in> set segs" for seg
  proof (rule well_formed_subst)
    show "well_formed seg"
      using that assms(2) by blast
    show "brace_free t" if "texts items k = Some t" for k t
      using assms(1) that by (rule texts_brace_free)
  qed
  then show ?thesis by simp
qed

lemma subst_eq_Token: "subst m seg = Token k \<Longrightarrow> m k = None"
  by (cases seg) (auto split: option.splits)

lemma Token_subst:
  assumes "Token k \<in> set (map (subst m) segs)"
  shows "m k = None"
proof -
  from assms obtain seg where "subst m seg = Token k"
    by auto
  then show ?thesis
    by (rule subst_eq_Token)
qed

lemma texts_permuted:
  assumes "mset items2 = mset items1" "distinct (map fst items1)"
  shows "texts items2 = texts items1"
proof -
  let ?f = "\<lambda>(key, value). (key, py_str value)"
  have fst: "map fst (map ?f xs) = map fst xs" for xs
    by (induction xs) auto
  have "mset (map fst items2) = mset (map fst items1)"
    using assms(1) by simp
  then have "distinct (map fst items2) \<longleftrightarrow> distinct (map fst items1)"
    by (rule mset_eq_imp_distinct_iff)
  with assms(2) have d2: "distinct (map fst items2)"
    by simp
  have "set items2 = set items1"
    using assms(1) by (rule mset_eq_setD)
  then have sets: "set (map ?f items2) = set (map ?f items1)"
    by simp
  have "map_of (map ?f items2) = map_of (map ?f items1) \<longleftrightarrow> set (map ?f items2) = set (map ?f items1)"
    by (rule map_of_inject_set) (simp_all only: fst d2 assms(2))
  with sets show ?thesis
    unfolding texts_def by blast
qed

section \<open>The file system\<close>

lemma paths_distinct:
  "OUTPUT_PATH file \<noteq> CONFIG_PATH file" "OUTPUT_PATH file \<noteq> TEMPLATE_PATH file"
  "CONFIG_PATH file \<noteq> TEMPLATE_PATH file"
  by (auto simp: OUTPUT_PATH_def CONFIG_PATH_def TEMPLATE_PATH_def with_name_def
      dest: arg_cong [where f = name])

lemma dict_items_Inr [simp]: "dict_items d = Inr items \<longleftrightarrow> d = Dict items"
  by (cases d) auto

lemma exit_code_zero [simp]: "exit_code result = 0 \<longleftrightarrow> result = Returned"
  by (cases result) auto

lemma read_text_Inr:
  "read_text w p = Inr text \<longleftrightarrow>
     (\<exists>bytes decoded. fault w p OpenRead = None \<and> files w (resolve w p) = Some (File bytes)
        \<and> fault w p ReadAll = None \<and> locale_decode w bytes = Some decoded
        \<and> text = universal_newlines decoded)"
  by (auto simp: read_text_def split: option.splits node.splits)

lemma write_text_None:
  "write_text w p text = (None, w') \<longleftrightarrow>
     (\<exists>bytes. fault w p OpenWrite = None \<and> files w (resolve w p) \<noteq> Some Directory
        \<and> locale_encode w (str_replace [LF] (linesep w) text) = Some bytes
        \<and> fault w p WriteAll = None \<and> w' = store w p bytes)"
  by (auto simp: write_text_def split: option.splits node.splits)

lemma main_Returned:
  assumes "fst (main json_load file w) = Returned"
  obtains raw items content w' where
    "path_exists w (CONFIG_PATH file)" "path_exists w (TEMPLATE_PATH file)"
    "read_text w (CONFIG_PATH file) = Inr raw" "json_load raw = Inr (Dict items)"
    "read_text w (TEMPLATE_PATH file) = Inr content"
    "write_text w (OUTPUT_PATH file) (render items content) = (None, w')"
    "snd (main json_load file w) = print w' (''Generated '' @ path_str (OUTPUT_PATH file))"
  using assms
  by (auto simp: main_def split: if_splits sum.splits option.splits prod.splits)

section \<open>The claims\<close>

subsection \<open>The substitution loop\<close>

text \<open>
  C8. With the configuration \<^verbatim>\<open>{"hostname": "node1", "port": 8080}\<close> the template
  \<^verbatim>\<open>host={{hostname}} port={{port}} debug={{debug}}\<close> is rendered to
  \<^verbatim>\<open>host=node1 port=8080 debug={{debug}}\<close>.
\<close>

theorem render_example:
  "render [(''hostname'', JString ''node1''), (''port'', JInt 8080)]
      ''host={{hostname}} port={{port}} debug={{debug}}''
   = ''host=node1 port=8080 debug={{debug}}''"
  by (simp add: str_replace_def placeholder_def str_int_def str_nat.simps digit_char_def)

text \<open>
  C7. A template in which the placeholder of no key of the configuration occurs is
  rendered to itself.
\<close>

theorem render_without_placeholders:
  "\<forall>(key, value) \<in> set items. \<not> sublist (placeholder key) template \<Longrightarrow> render items template = template"
  by (rule render_absent)

theorem render_without_placeholders_witness:
  "render example_items ''d-i debug/level string {{debug}}'' = ''d-i debug/level string {{debug}}''"
proof -
  have "\<forall>(key, value) \<in> set example_items.
          \<not> sublist (placeholder key) ''d-i debug/level string {{debug}}''"
    by (simp add: placeholder_def sublist_code)
  then show ?thesis
    by (rule render_without_placeholders)
qed

text \<open>
  C1, as stated, fails: a placeholder of a key of the configuration can occur in the
  output. The value may hold the placeholder itself (\<^verbatim>\<open>{"a": "{{a}}"}\<close> on the template
  \<^verbatim>\<open>{{a}}\<close>), or the inserted value may join the text around it to a new occurrence
  (\<^verbatim>\<open>{"ab": "a"}\<close> on \<^verbatim>\<open>{{{{ab}}b}}\<close>, where the keys and values have no brace at all).
\<close>

theorem placeholder_remains_counterexample:
  "sublist (placeholder ''a'') ''{{a}}''
   \<and> sublist (placeholder ''a'') (render [(''a'', JString ''{{a}}'')] ''{{a}}'')
   \<and> sublist (placeholder ''ab'') ''{{{{ab}}b}}''
   \<and> sublist (placeholder ''ab'') (render [(''ab'', JString ''a'')] ''{{{{ab}}b}}'')"
  by (simp add: str_replace_def placeholder_def sublist_code)

text \<open>
  C1, amended. When the template is made of brace-free text and tokens with brace-free
  identifiers, and the keys and the texts of the values of the configuration are
  brace-free, the output is the template with every token of a key replaced by the text
  of that key's value, and the placeholder of no key of the configuration occurs in it.
\<close>

theorem placeholders_replaced:
  assumes "\<forall>(k, v) \<in> set items. brace_free k \<and> brace_free (py_str v)"
    and "\<forall>seg \<in> set segs. well_formed seg"
    and "(key, value) \<in> set items"
  shows "render items (flatten segs) = flatten (map (subst (texts items)) segs)
         \<and> \<not> sublist (placeholder key) (render items (flatten segs))"
proof -
  have eq: "render items (flatten segs) = flatten (map (subst (texts items)) segs)"
    using assms(1,2) by (rule render_tokens)
  have wf: "\<forall>seg \<in> set (map (subst (texts items)) segs). well_formed seg"
    using assms(1,2) by (rule well_formed_texts)
  have key: "brace_free key" using assms(1,3) by auto
  have "key \<in> dom (texts items)"
    unfolding dom_texts using assms(3) by (rule image_eqI [rotated]) simp
  then have "texts items key \<noteq> None"
    by blast
  then have "Token key \<notin> set (map (subst (texts items)) segs)"
    using Token_subst [of key "texts items" segs] by auto
  then have "\<not> sublist (placeholder key) (flatten (map (subst (texts items)) segs))"
    using sublist_tokens [OF key wf] by blast
  with eq show ?thesis by simp
qed

theorem placeholders_replaced_witness:
  "render example_items (flatten example_segments) = flatten (map (subst (texts example_items)) example_segments)
   \<and> \<not> sublist (placeholder ''port'') (render example_items (flatten example_segments))"
proof -
  have items: "\<forall>(k, v) \<in> set example_items. brace_free k \<and> brace_free (py_str v)"
    by (simp add: brace_free_def str_int_def str_nat.simps digit_char_def)
  have segs: "\<forall>seg \<in> set example_segments. well_formed seg"
    by (simp add: brace_free_def)
  have key: "(''port'', JInt 8080) \<in> set example_items"
    by simp
  from items segs key show ?thesis
    by (rule placeholders_replaced)
qed




text \<open>
  C3, as stated, fails: two orders of the same items can give two outputs although no
  value holds the placeholder of another key. The values \<^verbatim>\<open>{{b\<close> and \<^verbatim>\<open>}}\<close> join to
  the placeholder of \<^verbatim>\<open>b\<close> on the template \<^verbatim>\<open>{{a}}{{c}}\<close>; and with brace-free keys and
  values, \<^verbatim>\<open>{"ab": "a", "a": "z"}\<close> on the template \<^verbatim>\<open>{{{{ab}}}}\<close> gives \<^verbatim>\<open>z\<close> in one
  order and \<^verbatim>\<open>{{a}}\<close> in the other.
\<close>

theorem render_order_counterexample:
  "render [(''a'', JString ''{{b''), (''c'', JString ''}}''), (''b'', JString ''x'')] ''{{a}}{{c}}''
     \<noteq> render [(''b'', JString ''x''), (''a'', JString ''{{b''), (''c'', JString ''}}'')] ''{{a}}{{c}}''
   \<and> mset [(''a'', JString ''{{b''), (''c'', JString ''}}''), (''b'', JString ''x'')]
     = mset [(''b'', JString ''x''), (''a'', JString ''{{b''), (''c'', JString ''}}'')]
   \<and> \<not> sublist (placeholder ''b'') ''{{b'' \<and> \<not> sublist (placeholder ''c'') ''{{b''
   \<and> \<not> sublist (placeholder ''a'') ''}}'' \<and> \<not> sublist (placeholder ''b'') ''}}''
   \<and> \<not> sublist (placeholder ''a'') ''x'' \<and> \<not> sublist (placeholder ''c'') ''x''
   \<and> render [(''ab'', JString ''a''), (''a'', JString ''z'')] ''{{{{ab}}}}''
     \<noteq> render [(''a'', JString ''z''), (''ab'', JString ''a'')] ''{{{{ab}}}}''
   \<and> mset [(''ab'', JString ''a''), (''a'', JString ''z'')]
     = mset [(''a'', JString ''z''), (''ab'', JString ''a'')]
   \<and> \<not> sublist (placeholder ''a'') ''a'' \<and> \<not> sublist (placeholder ''ab'') ''z''"
  by (simp add: str_replace_def placeholder_def sublist_code)

text \<open>
  C3, amended. On a template of brace-free text and tokens with brace-free identifiers,
  and for a configuration whose keys are distinct and whose keys and value texts are
  brace-free, every permutation of the items gives the same output.
\<close>

theorem render_order_independent:
  assumes "\<forall>(k, v) \<in> set items1. brace_free k \<and> brace_free (py_str v)"
    and "\<forall>seg \<in> set segs. well_formed seg"
    and "mset items2 = mset items1" and "distinct (map fst items1)"
  shows "render items2 (flatten segs) = render items1 (flatten segs)"
proof -
  have "set items2 = set items1" using assms(3) by (rule mset_eq_setD)
  with assms(1) have "\<forall>(k, v) \<in> set items2. brace_free k \<and> brace_free (py_str v)" by simp
  then have "render items2 (flatten segs) = flatten (map (subst (texts items2)) segs)"
    using assms(2) by (rule render_tokens)
  also have "texts items2 = texts items1"
    using assms(3,4) by (rule texts_permuted)
  also have "flatten (map (subst (texts items1)) segs) = render items1 (flatten segs)"
    using assms(1,2) by (rule render_tokens [symmetric])
  finally show ?thesis .
qed

theorem render_order_independent_witness:
  "render [(''port'', JInt 8080), (''hostname'', JString ''node1'')] (flatten example_segments)
   = render example_items (flatten example_segments)"
proof -
  have items: "\<forall>(k, v) \<in> set example_items. brace_free k \<and> brace_free (py_str v)"
    by (simp add: brace_free_def str_int_def str_nat.simps digit_char_def)
  have segs: "\<forall>seg \<in> set example_segments. well_formed seg"
    by (simp add: brace_free_def)
  have perm: "mset [(''port'', JInt 8080), (''hostname'', JString ''node1'')] = mset example_items"
    by simp
  have keys: "distinct (map fst example_items)"
    by simp
  from items segs perm keys show ?thesis
    by (rule render_order_independent)
qed

text \<open>
  C6, as stated, fails: a placeholder whose identifier is not a key can be changed. The
  key \<^verbatim>\<open>ab}} {{cd\<close> has the placeholder \<^verbatim>\<open>{{ab}} {{cd}}\<close>, which covers the placeholder
  of \<^verbatim>\<open>ab\<close>; and the placeholder of a key can lie inside the placeholder of an identifier
  that has braces, as \<^verbatim>\<open>{{a}}\<close> lies in \<^verbatim>\<open>{{{{a}}}}\<close>.
\<close>

theorem absent_key_counterexample:
  "sublist (placeholder ''ab'') ''{{ab}} {{cd}}''
   \<and> ''ab'' \<notin> fst ` set [(''ab}} {{cd'', JString ''x'')]
   \<and> \<not> sublist (placeholder ''ab'') (render [(''ab}} {{cd'', JString ''x'')] ''{{ab}} {{cd}}'')
   \<and> sublist (placeholder ''{{a}}'') ''{{{{a}}}}''
   \<and> ''{{a}}'' \<notin> fst ` set [(''a'', JString ''x'')]
   \<and> \<not> sublist (placeholder ''{{a}}'') (render [(''a'', JString ''x'')] ''{{{{a}}}}'')"
  by (simp add: str_replace_def placeholder_def sublist_code)

text \<open>
  C6, amended. When the identifier and all keys of the configuration are brace-free and
  the identifier is not a key, every occurrence of the identifier's placeholder stays
  where it is: the text before it and the text behind it are rendered as they would be
  alone, for every template and whatever the values are.
\<close>

theorem render_around:
  assumes "brace_free ident"
    and "\<forall>(key, value) \<in> set items. brace_free key \<and> key \<noteq> ident"
  shows "render items (a @ placeholder ident @ b)
         = render items a @ placeholder ident @ render items b"
  using assms by (rule render_split_at_placeholder)

theorem render_around_witness:
  "render example_items (''host={{hostname}} debug='' @ placeholder ''debug'' @ '' port={{port}}'')
   = render example_items ''host={{hostname}} debug='' @ placeholder ''debug''
     @ render example_items '' port={{port}}''"
proof -
  have ident: "brace_free ''debug''"
    by (simp add: brace_free_def)
  have keys: "\<forall>(key, value) \<in> set example_items. brace_free key \<and> key \<noteq> ''debug''"
    by (simp add: brace_free_def)
  from ident keys show ?thesis
    by (rule render_around)
qed


subsection \<open>The run\<close>






text \<open>
  C9, as stated, fails: an input file does not always remain unchanged. When the output
  path is a link to the template file, the write goes to that file, and after a run that
  returns the template holds the rendered text.
\<close>

theorem linked_output_counterexample:
  "resolve
     (example_world (\<lambda>p. if p = OUTPUT_PATH example_script then TEMPLATE_PATH example_script else p)
        [CONFIG_PATH example_script \<mapsto> File example_json,
         TEMPLATE_PATH example_script \<mapsto> File ''host={{hostname}}''])
     (OUTPUT_PATH example_script) = TEMPLATE_PATH example_script
   \<and> fst (main (\<lambda>raw. Inr (Dict example_items)) example_script
      (example_world (\<lambda>p. if p = OUTPUT_PATH example_script then TEMPLATE_PATH example_script else p)
         [CONFIG_PATH example_script \<mapsto> File example_json,
          TEMPLATE_PATH example_script \<mapsto> File ''host={{hostname}}''])) = Returned
   \<and> files (snd (main (\<lambda>raw. Inr (Dict example_items)) example_script
      (example_world (\<lambda>p. if p = OUTPUT_PATH example_script then TEMPLATE_PATH example_script else p)
         [CONFIG_PATH example_script \<mapsto> File example_json,
          TEMPLATE_PATH example_script \<mapsto> File ''host={{hostname}}''])))
        (TEMPLATE_PATH example_script) = Some (File ''host=node1'')"
  using paths_distinct [of "example_script"]
  by (simp add: main_def path_exists_def read_text_def write_text_def store_def print_def
      str_replace_def placeholder_def str_int_def str_nat.simps digit_char_def)

text \<open>
  C9, amended. A run that returns has read the two input files and changed the file
  system at one file only, the one the output path leads to: that file holds the
  rendered text (the template as read in text mode, with the placeholders replaced,
  written with the line separator and the codec of the platform), whatever was there
  before, and every other file holds what it held. The configuration file and the
  template file are unchanged unless the output path leads to the same file.
\<close>

theorem main_writes_only_output:
  assumes "fst (main json_load file w) = Returned"
  shows "(\<exists>config_bytes config_text items template_bytes template_text output_bytes.
            files w (resolve w (CONFIG_PATH file)) = Some (File config_bytes)
            \<and> locale_decode w config_bytes = Some config_text
            \<and> json_load (universal_newlines config_text) = Inr (Dict items)
            \<and> files w (resolve w (TEMPLATE_PATH file)) = Some (File template_bytes)
            \<and> locale_decode w template_bytes = Some template_text
            \<and> locale_encode w (str_replace [LF] (linesep w)
                  (render items (universal_newlines template_text))) = Some output_bytes
            \<and> files (snd (main json_load file w))
                = (files w)(resolve w (OUTPUT_PATH file) \<mapsto> File output_bytes))
         \<and> resolve (snd (main json_load file w)) = resolve w
         \<and> (\<forall>q. q \<noteq> resolve w (OUTPUT_PATH file) \<longrightarrow>
               files (snd (main json_load file w)) q = files w q)
         \<and> (resolve w (OUTPUT_PATH file) \<noteq> resolve w (CONFIG_PATH file) \<longrightarrow>
               files (snd (main json_load file w)) (resolve w (CONFIG_PATH file))
                 = files w (resolve w (CONFIG_PATH file)))
         \<and> (resolve w (OUTPUT_PATH file) \<noteq> resolve w (TEMPLATE_PATH file) \<longrightarrow>
               files (snd (main json_load file w)) (resolve w (TEMPLATE_PATH file))
                 = files w (resolve w (TEMPLATE_PATH file)))"
proof -
  from assms obtain raw items content w' where
    "path_exists w (CONFIG_PATH file)" "path_exists w (TEMPLATE_PATH file)" and run:
    "read_text w (CONFIG_PATH file) = Inr raw" "json_load raw = Inr (Dict items)"
    "read_text w (TEMPLATE_PATH file) = Inr content"
    "write_text w (OUTPUT_PATH file) (render items content) = (None, w')"
    "snd (main json_load file w) = print w' (''Generated '' @ path_str (OUTPUT_PATH file))"
    by (rule main_Returned)
  from run(1) obtain config_bytes config_text where config:
    "files w (resolve w (CONFIG_PATH file)) = Some (File config_bytes)"
    "locale_decode w config_bytes = Some config_text" "raw = universal_newlines config_text"
    by (auto simp: read_text_Inr)
  from run(3) obtain template_bytes template_text where template:
    "files w (resolve w (TEMPLATE_PATH file)) = Some (File template_bytes)"
    "locale_decode w template_bytes = Some template_text"
    "content = universal_newlines template_text"
    by (auto simp: read_text_Inr)
  from run(4) obtain output_bytes where wrote:
    "locale_encode w (str_replace [LF] (linesep w) (render items content)) = Some output_bytes"
    "w' = store w (OUTPUT_PATH file) output_bytes"
    by (auto simp: write_text_None)
  have after: "files (snd (main json_load file w))
               = (files w)(resolve w (OUTPUT_PATH file) \<mapsto> File output_bytes)"
    "resolve (snd (main json_load file w)) = resolve w"
    using run(5) wrote(2) by (simp_all add: print_def store_def)
  have first: "\<exists>config_bytes config_text items template_bytes template_text output_bytes.
            files w (resolve w (CONFIG_PATH file)) = Some (File config_bytes)
            \<and> locale_decode w config_bytes = Some config_text
            \<and> json_load (universal_newlines config_text) = Inr (Dict items)
            \<and> files w (resolve w (TEMPLATE_PATH file)) = Some (File template_bytes)
            \<and> locale_decode w template_bytes = Some template_text
            \<and> locale_encode w (str_replace [LF] (linesep w)
                  (render items (universal_newlines template_text))) = Some output_bytes
            \<and> files (snd (main json_load file w))
                = (files w)(resolve w (OUTPUT_PATH file) \<mapsto> File output_bytes)"
    using config template wrote(1) run(2) after(1) by blast
  have frame: "files (snd (main json_load file w)) q = files w q"
    if "q \<noteq> resolve w (OUTPUT_PATH file)" for q
    using that after(1) by simp
  from first after(2) frame show ?thesis
    by simp
qed

theorem main_writes_only_output_witness:
  "files (snd (main (\<lambda>raw. Inr (Dict example_items)) example_script
      (example_world (\<lambda>p. p)
         [CONFIG_PATH example_script \<mapsto> File example_json,
          TEMPLATE_PATH example_script \<mapsto> File (''host={{hostname}}'' @ [CR, LF]),
          OUTPUT_PATH example_script \<mapsto> File ''old''])))
   = [CONFIG_PATH example_script \<mapsto> File example_json,
      TEMPLATE_PATH example_script \<mapsto> File (''host={{hostname}}'' @ [CR, LF]),
      OUTPUT_PATH example_script \<mapsto> File (''host=node1'' @ [LF])]"
proof -
  let ?load = "\<lambda>raw :: string. Inr (Dict example_items) :: py_error + document"
  let ?w = "example_world (\<lambda>p. p)
         [CONFIG_PATH example_script \<mapsto> File example_json,
          TEMPLATE_PATH example_script \<mapsto> File (''host={{hostname}}'' @ [CR, LF]),
          OUTPUT_PATH example_script \<mapsto> File ''old'']"
  have run: "fst (main ?load example_script ?w) = Returned"
    using paths_distinct [of "example_script"]
    by (simp add: main_def path_exists_def read_text_def write_text_def)
  from main_writes_only_output [OF run] obtain items template_bytes template_text output_bytes where
    "?load (universal_newlines example_json) = Inr (Dict items)"
    "files ?w (resolve ?w (TEMPLATE_PATH example_script)) = Some (File template_bytes)"
    "locale_decode ?w template_bytes = Some template_text"
    "locale_encode ?w (str_replace [LF] (linesep ?w)
        (render items (universal_newlines template_text))) = Some output_bytes"
    "files (snd (main ?load example_script ?w))
       = (files ?w)(resolve ?w (OUTPUT_PATH example_script) \<mapsto> File output_bytes)"
    using paths_distinct [of "example_script"] by auto
  then have "files (snd (main ?load example_script ?w))
     = (files ?w)(OUTPUT_PATH example_script \<mapsto>
         File (str_replace [LF] [LF]
           (render example_items (universal_newlines (''host={{hostname}}'' @ [CR, LF])))))"
    using paths_distinct [of "example_script"] by auto
  then show ?thesis
    by (simp add: str_replace_def placeholder_def str_int_def str_nat.simps digit_char_def)
qed

end
